theory Spec2Isabelle
  imports Main
begin

section \<open>Data model of \<open>data.py\<close>\<close>

text \<open>
  A mention is a pair of Python integers: \<open>_tokenize\<close> unpacks every mention with
  \<open>for start, end in cluster\<close>. Before alignment the pair is
  \<open>(start_word, end_word_exclusive)\<close>, afterwards it is
  \<open>(first_subtoken, last_subtoken)\<close>, both inclusive.

  The tokenizer is the external capability \<open>tokenize(word)\<close>; the unit it returns is left
  abstract (\<open>'tok\<close>).
\<close>

type_synonym mention = "int \<times> int"

type_synonym 'tok tokenizer = "string \<Rightarrow> 'tok list"

text \<open>A decoded line of the corpus file: \<open>(doc_key, sentences, clusters)\<close>.\<close>

type_synonym 'm document_record = "string \<times> string list list \<times> 'm list list"

text \<open>What \<open>_parse_jsonlines\<close> appends: \<open>(doc_key, input_words, clusters)\<close>.\<close>

type_synonym 'm parsed_example = "string \<times> string list \<times> 'm list list"

text \<open>\<open>CorefExample = namedtuple("CorefExample", ["token_ids", "clusters"])\<close>\<close>

datatype 'tok CorefExample =
  CorefExample (token_ids: "'tok list") (clusters: "mention list list")

text \<open>
  An element of \<open>coref_examples\<close>:
  \<open>((doc_key, end_token_idx_to_word_idx), CorefExample(...))\<close>.
\<close>

type_synonym 'tok tokenized_example = "(string \<times> int list) \<times> 'tok CorefExample"

text \<open>
  The only exception the modelled code raises itself: a dictionary lookup with a missing
  key, carrying the key.
\<close>

datatype error = KeyError int

section \<open>The word scan of \<open>_tokenize\<close> (lines 70--81)\<close>

text \<open>
  The four locals of the outer loop body that the inner loop over \<open>enumerate(words)\<close>
  mutates. The two dictionaries are maps from word index to subtoken index.
\<close>

record 'tok word_scan =
  word_idx_to_start_token_idx :: "int \<rightharpoonup> int"
  word_idx_to_end_token_idx :: "int \<rightharpoonup> int"
  end_token_idx_to_word_idx :: "int list"
  scan_token_ids :: "'tok list"

text \<open>The state before the first word: empty dictionaries, \<open>[0]\<close> for \<open><s>\<close>, no tokens.\<close>

definition scan_init :: "'tok word_scan" where
  "scan_init =
     \<lparr> word_idx_to_start_token_idx = Map.empty,
       word_idx_to_end_token_idx = Map.empty,
       end_token_idx_to_word_idx = [0],
       scan_token_ids = [] \<rparr>"

text \<open>One iteration of \<open>for idx, word in enumerate(words)\<close>, statement by statement.\<close>

definition scan_word :: "'tok tokenizer \<Rightarrow> int \<Rightarrow> string \<Rightarrow> 'tok word_scan \<Rightarrow> 'tok word_scan" where
  "scan_word tok idx word st =
     (let st1 = st\<lparr> word_idx_to_start_token_idx :=
                     (word_idx_to_start_token_idx st)(idx \<mapsto> int (length (scan_token_ids st)) + 1) \<rparr>;
          tokenized = tok word;
          st2 = st1\<lparr> end_token_idx_to_word_idx :=
                      end_token_idx_to_word_idx st1 @ replicate (length tokenized) idx \<rparr>;
          st3 = st2\<lparr> scan_token_ids := scan_token_ids st2 @ tokenized \<rparr>
      in st3\<lparr> word_idx_to_end_token_idx :=
                (word_idx_to_end_token_idx st3)(idx \<mapsto> int (length (scan_token_ids st3))) \<rparr>)"

text \<open>The loop itself; \<open>idx\<close> is the counter of \<open>enumerate\<close>.\<close>

fun scan_words :: "'tok tokenizer \<Rightarrow> string list \<Rightarrow> int \<Rightarrow> 'tok word_scan \<Rightarrow> 'tok word_scan" where
  "scan_words tok [] idx st = st"
| "scan_words tok (word # ws) idx st = scan_words tok ws (idx + 1) (scan_word tok idx word st)"

text \<open>The scan of one document, from the initial state and \<open>idx = 0\<close>.\<close>

definition align_words :: "'tok tokenizer \<Rightarrow> string list \<Rightarrow> 'tok word_scan" where
  "align_words tok ws = scan_words tok ws 0 scan_init"

text \<open>
  The running token count just before the word with index \<open>i\<close> is tokenized, as a
  specification-side quantity: the subtokens of the first \<open>i\<close> words.
\<close>

definition emitted_before :: "'tok tokenizer \<Rightarrow> string list \<Rightarrow> nat \<Rightarrow> 'tok list" where
  "emitted_before tok ws i = concat (map tok (take i ws))"

section \<open>Cluster remapping of \<open>_tokenize\<close> (lines 87--89)\<close>

text \<open>
  One element of the inner comprehension:
  \<open>(word_idx_to_start_token_idx[start], word_idx_to_end_token_idx[end - 1])\<close>.
  Both operands are dictionary subscripts, evaluated left to right; a missing key raises
  \<open>KeyError\<close>. The dictionaries are \<open>dict\<close>s, not lists, so a negative key is a missing
  key like any other.
\<close>

definition remap_mention :: "'tok word_scan \<Rightarrow> mention \<Rightarrow> error + mention" where
  "remap_mention st m =
     (case m of (start_w, end_w) \<Rightarrow>
        (case word_idx_to_start_token_idx st start_w of
           None \<Rightarrow> Inl (KeyError start_w)
         | Some s \<Rightarrow>
             (case word_idx_to_end_token_idx st (end_w - 1) of
                None \<Rightarrow> Inl (KeyError (end_w - 1))
              | Some e \<Rightarrow> Inr (s, e))))"

text \<open>The inner comprehension over one cluster: the first exception ends it.\<close>

fun remap_cluster :: "'tok word_scan \<Rightarrow> mention list \<Rightarrow> error + mention list" where
  "remap_cluster st [] = Inr []"
| "remap_cluster st (m # ms) =
     (case remap_mention st m of
        Inl e \<Rightarrow> Inl e
      | Inr m' \<Rightarrow>
          (case remap_cluster st ms of
             Inl e \<Rightarrow> Inl e
           | Inr ms' \<Rightarrow> Inr (m' # ms')))"

text \<open>The outer comprehension over the clusters of the document.\<close>

fun remap_clusters :: "'tok word_scan \<Rightarrow> mention list list \<Rightarrow> error + mention list list" where
  "remap_clusters st [] = Inr []"
| "remap_clusters st (c # cs) =
     (case remap_cluster st c of
        Inl e \<Rightarrow> Inl e
      | Inr c' \<Rightarrow>
          (case remap_clusters st cs of
             Inl e \<Rightarrow> Inl e
           | Inr cs' \<Rightarrow> Inr (c' # cs')))"

section \<open>\<open>_tokenize\<close> (lines 64--99)\<close>

text \<open>
  The loop over \<open>examples\<close> with its three accumulators
  \<open>(coref_examples, lengths, num_examples_filtered)\<close>. \<open>tok\<close> stands for
  \<open>self.tokenizer.tokenize\<close> and \<open>msl\<close> for \<open>self.max_seq_length\<close>. The length test
  \<open>0 < self.max_seq_length < len(token_ids)\<close> comes first and \<open>continue\<close>s; only a document
  that passes it has its clusters remapped.
\<close>

fun tokenize_loop ::
  "'tok tokenizer \<Rightarrow> int \<Rightarrow> mention parsed_example list \<Rightarrow>
   'tok tokenized_example list \<times> int list \<times> int \<Rightarrow>
   error + ('tok tokenized_example list \<times> int list \<times> int)" where
  "tokenize_loop tok msl [] acc = Inr acc"
| "tokenize_loop tok msl ((doc_key, ws, cls) # rest) (coref_examples, lens, num_filtered) =
     (let st = align_words tok ws in
      if 0 < msl \<and> msl < int (length (scan_token_ids st))
      then tokenize_loop tok msl rest (coref_examples, lens, num_filtered + 1)
      else
        (case remap_clusters st cls of
           Inl e \<Rightarrow> Inl e
         | Inr new_clusters \<Rightarrow>
             tokenize_loop tok msl rest
               (coref_examples @
                  [((doc_key, end_token_idx_to_word_idx st),
                    CorefExample (scan_token_ids st) new_clusters)],
                lens @ [int (length (scan_token_ids st))],
                num_filtered)))"

definition tokenize ::
  "'tok tokenizer \<Rightarrow> int \<Rightarrow> mention parsed_example list \<Rightarrow>
   error + ('tok tokenized_example list \<times> int list \<times> int)" where
  "tokenize tok msl exs = tokenize_loop tok msl exs ([], [], 0)"

text \<open>
  Specification-side vocabulary for one parsed example: its subtoken sequence, whether the
  length filter drops it, and whether each of its mentions names words of the document.
\<close>

definition doc_tokens :: "'tok tokenizer \<Rightarrow> mention parsed_example \<Rightarrow> 'tok list" where
  "doc_tokens tok d = (case d of (doc_key, ws, cls) \<Rightarrow> concat (map tok ws))"

definition too_long :: "'tok tokenizer \<Rightarrow> int \<Rightarrow> mention parsed_example \<Rightarrow> bool" where
  "too_long tok msl d \<longleftrightarrow> 0 < msl \<and> msl < int (length (doc_tokens tok d))"

definition in_word_range :: "nat \<Rightarrow> mention \<Rightarrow> bool" where
  "in_word_range n m \<longleftrightarrow>
     (case m of (start_w, end_w) \<Rightarrow>
        (0 \<le> start_w \<and> start_w < int n) \<and> (0 \<le> end_w - 1 \<and> end_w - 1 < int n))"

definition mentions_in_range :: "nat \<Rightarrow> mention list list \<Rightarrow> bool" where
  "mentions_in_range n cls \<longleftrightarrow> list_all (list_all (in_word_range n)) cls"

definition well_indexed :: "mention parsed_example \<Rightarrow> bool" where
  "well_indexed d = (case d of (doc_key, ws, cls) \<Rightarrow> mentions_in_range (length ws) cls)"

section \<open>\<open>_parse_jsonlines\<close> (lines 28--62)\<close>

text \<open>
  Modelled from the spec: \<open>flatten_list_of_lists\<close> is imported from \<open>utils\<close>, which is
  not among the sources. The spec describes it as flattening the sentences into a single
  word sequence, the concatenation of all sentences with the order preserved.
\<close>

definition flatten_list_of_lists :: "'a list list \<Rightarrow> 'a list" where
  "flatten_list_of_lists xss = concat xss"

text \<open>
  \<open>max(len(cluster) for cluster in clusters) if clusters else 0\<close>: the guard keeps
  Python's \<open>max\<close> away from the empty sequence.
\<close>

definition largest_cluster :: "'m list list \<Rightarrow> int" where
  "largest_cluster cls =
     (case cls of
        [] \<Rightarrow> 0
      | c # cs \<Rightarrow> foldl max (int (length c)) (map (\<lambda>cluster. int (length cluster)) cs))"

text \<open>
  The loop over the lines of the file, each already decoded by \<open>json.loads\<close> into its
  three fields, with the accumulators
  \<open>(examples, max_mention_num, max_cluster_size, max_num_clusters)\<close>.
\<close>

fun parse_loop ::
  "'m document_record list \<Rightarrow> 'm parsed_example list \<times> int \<times> int \<times> int \<Rightarrow>
   'm parsed_example list \<times> int \<times> int \<times> int" where
  "parse_loop [] acc = acc"
| "parse_loop ((doc_key, sentences, cls) # rest) (exs, mmn, mcs, mnc) =
     (let input_words = flatten_list_of_lists sentences;
          mmn' = max mmn (int (length (flatten_list_of_lists cls)));
          mcs' = max mcs (largest_cluster cls);
          mnc' = max mnc (if cls \<noteq> [] then int (length cls) else 0)
      in parse_loop rest (exs @ [(doc_key, input_words, cls)], mmn', mcs', mnc'))"

definition parse_jsonlines ::
  "'m document_record list \<Rightarrow> 'm parsed_example list \<times> int \<times> int \<times> int" where
  "parse_jsonlines records = parse_loop records ([], - 1, - 1, - 1)"

text \<open>Specification-side vocabulary: the three per-document counts the maxima range over.\<close>

definition mention_count :: "'m document_record \<Rightarrow> int" where
  "mention_count d = (case d of (doc_key, sentences, cls) \<Rightarrow> int (length (concat cls)))"

definition cluster_size_candidate :: "'m document_record \<Rightarrow> int" where
  "cluster_size_candidate d =
     (case d of (doc_key, sentences, cls) \<Rightarrow>
        if cls = [] then 0 else Max ((\<lambda>cluster. int (length cluster)) ` set cls))"

definition cluster_count :: "'m document_record \<Rightarrow> int" where
  "cluster_count d = (case d of (doc_key, sentences, cls) \<Rightarrow> int (length cls))"

definition flatten_record :: "'m document_record \<Rightarrow> 'm parsed_example" where
  "flatten_record d = (case d of (doc_key, sentences, cls) \<Rightarrow> (doc_key, concat sentences, cls))"

section \<open>The dataset object\<close>

text \<open>
  The attributes \<open>__init__\<close> computes. (\<open>self.tokenizer\<close> is the argument stored as it
  is.)
\<close>

record 'tok CorefDataset =
  max_mention_num :: int
  max_cluster_size :: int
  max_num_clusters :: int
  max_seq_length :: int
  examples :: "'tok tokenized_example list"
  lengths :: "int list"
  num_examples_filtered :: int

text \<open>
  \<open>__init__\<close>: parse, store \<open>max_seq_length\<close>, tokenize. An exception of \<open>_tokenize\<close>
  leaves no object.
\<close>

definition CorefDataset_init ::
  "mention document_record list \<Rightarrow> 'tok tokenizer \<Rightarrow> int \<Rightarrow> error + 'tok CorefDataset" where
  "CorefDataset_init records tok msl =
     (case parse_jsonlines records of
        (exs, mmn, mcs, mnc) \<Rightarrow>
          (case tokenize tok msl exs of
             Inl e \<Rightarrow> Inl e
           | Inr (coref_examples, lens, num_filtered) \<Rightarrow>
               Inr \<lparr> max_mention_num = mmn,
                     max_cluster_size = mcs,
                     max_num_clusters = mnc,
                     max_seq_length = msl,
                     examples = coref_examples,
                     lengths = lens,
                     num_examples_filtered = num_filtered \<rparr>))"

section \<open>Cluster padding (lines 107--117)\<close>

text \<open>
  \<open>NULL_ID_FOR_COREF\<close> is imported from \<open>consts\<close>, which is not among the sources; it
  is the parameter \<open>null_id\<close>. Python's \<open>xs * n\<close> is the empty list for every \<open>n \<le> 0\<close>,
  which \<open>replicate (nat n)\<close> reproduces.
\<close>

definition pad_clusters_inside ::
  "'tok CorefDataset \<Rightarrow> int \<Rightarrow> mention list list \<Rightarrow> mention list list" where
  "pad_clusters_inside self null_id cls =
     map (\<lambda>cluster.
            cluster @ replicate (nat (max_cluster_size self - int (length cluster))) (null_id, null_id))
         cls"

definition pad_clusters_outside ::
  "'tok CorefDataset \<Rightarrow> mention list list \<Rightarrow> mention list list" where
  "pad_clusters_outside self cls =
     cls @ replicate (nat (max_num_clusters self - int (length cls))) []"

definition pad_clusters ::
  "'tok CorefDataset \<Rightarrow> int \<Rightarrow> mention list list \<Rightarrow> mention list list" where
  "pad_clusters self null_id cls = pad_clusters_inside self null_id (pad_clusters_outside self cls)"

section \<open>Relations between input and output of the aligner\<close>

text \<open>
  Specification-side relations: a remapped mention holds the two dictionary values of the
  original one; a tokenized example is the aligned form of a parsed example.
\<close>

definition remapped :: "'tok word_scan \<Rightarrow> mention \<Rightarrow> mention \<Rightarrow> bool" where
  "remapped st m m' \<longleftrightarrow>
     (case m of (start_w, end_w) \<Rightarrow>
        word_idx_to_start_token_idx st start_w = Some (fst m') \<and>
        word_idx_to_end_token_idx st (end_w - 1) = Some (snd m'))"

definition aligned_example ::
  "'tok tokenizer \<Rightarrow> mention parsed_example \<Rightarrow> 'tok tokenized_example \<Rightarrow> bool" where
  "aligned_example tok d ce \<longleftrightarrow>
     (case d of (doc_key, ws, cls) \<Rightarrow>
        fst ce = (doc_key, end_token_idx_to_word_idx (align_words tok ws)) \<and>
        token_ids (snd ce) = concat (map tok ws) \<and>
        remap_clusters (align_words tok ws) cls = Inr (clusters (snd ce)))"

section \<open>Fixtures\<close>

text \<open>
  Two tokenizers: one subtoken per character (so the empty word has none), and one
  subtoken per word.
\<close>

definition char_tok :: "char tokenizer" where
  "char_tok w = w"

definition word_tok :: "string tokenizer" where
  "word_tok w = [w]"

text \<open>The document of the concrete scenario, and a corpus of three parsed examples.\<close>

definition john_smith_words :: "string list" where
  "john_smith_words =
     [''John'', ''Smith'', ''is'', ''a'', ''nice'', ''guy'', ''.'',
      ''He'', ''lives'', ''in'', ''London'', ''.'']"

definition three_documents :: "mention parsed_example list" where
  "three_documents =
     [(''d1'', [''a'', ''b''], [[(0, 1), (1, 2)]]),
      (''d2'', [''c'', ''d'', ''e''], [[(0, 9)]]),
      (''d3'', [''f''], [])]"

text \<open>A corpus of two decoded records; the second has no cluster.\<close>

definition two_records :: "mention document_record list" where
  "two_records =
     [(''d1'', [[''a'', ''b''], [''c'']], [[(0, 1), (1, 2), (2, 3)], [(0, 2)]]),
      (''d2'', [[''d'']], [])]"

text \<open>The dataset that \<open>__init__\<close> builds from \<open>two_records\<close> with \<open>word_tok\<close>.\<close>

definition two_records_dataset :: "string CorefDataset" where
  "two_records_dataset =
     \<lparr> max_mention_num = 4,
       max_cluster_size = 3,
       max_num_clusters = 2,
       max_seq_length = - 1,
       examples =
         [((''d1'', [0, 0, 1, 2]),
           CorefExample [''a'', ''b'', ''c''] [[(1, 1), (2, 2), (3, 3)], [(1, 2)]]),
          ((''d2'', [0, 0]), CorefExample [''d''] [])],
       lengths = [3, 1],
       num_examples_filtered = 0 \<rparr>"

section \<open>The tokenizer as an object with state\<close>

text \<open>
  \<open>self.tokenizer.tokenize(word)\<close> is a method call on an object the aligner does not own.
  To speak about two runs, the call is modelled with the state of that object passed in
  and out: \<open>tk s word\<close> is the subtokens returned and the state afterwards. The functions
  below are \<open>scan_word\<close>, \<open>scan_words\<close>, \<open>align_words\<close>, \<open>tokenize_loop\<close>, \<open>tokenize\<close>
  and \<open>CorefDataset_init\<close> once more, statement by statement, with that state threaded
  through every call of the tokenizer in program order.
\<close>

type_synonym ('s, 'tok) tokenizer_object = "'s \<Rightarrow> string \<Rightarrow> 'tok list \<times> 's"

definition scan_word_st ::
  "('s, 'tok) tokenizer_object \<Rightarrow> int \<Rightarrow> string \<Rightarrow> 'tok word_scan \<times> 's \<Rightarrow> 'tok word_scan \<times> 's" where
  "scan_word_st tk idx word sts =
     (case sts of (st, s) \<Rightarrow>
        (let st1 = st\<lparr> word_idx_to_start_token_idx :=
                        (word_idx_to_start_token_idx st)(idx \<mapsto> int (length (scan_token_ids st)) + 1) \<rparr>;
             (tokenized, s') = tk s word;
             st2 = st1\<lparr> end_token_idx_to_word_idx :=
                         end_token_idx_to_word_idx st1 @ replicate (length tokenized) idx \<rparr>;
             st3 = st2\<lparr> scan_token_ids := scan_token_ids st2 @ tokenized \<rparr>
         in (st3\<lparr> word_idx_to_end_token_idx :=
                    (word_idx_to_end_token_idx st3)(idx \<mapsto> int (length (scan_token_ids st3))) \<rparr>,
             s')))"

fun scan_words_st ::
  "('s, 'tok) tokenizer_object \<Rightarrow> string list \<Rightarrow> int \<Rightarrow> 'tok word_scan \<times> 's \<Rightarrow> 'tok word_scan \<times> 's" where
  "scan_words_st tk [] idx sts = sts"
| "scan_words_st tk (word # ws) idx sts =
     scan_words_st tk ws (idx + 1) (scan_word_st tk idx word sts)"

definition align_words_st ::
  "('s, 'tok) tokenizer_object \<Rightarrow> string list \<Rightarrow> 's \<Rightarrow> 'tok word_scan \<times> 's" where
  "align_words_st tk ws s = scan_words_st tk ws 0 (scan_init, s)"

fun tokenize_loop_st ::
  "('s, 'tok) tokenizer_object \<Rightarrow> int \<Rightarrow> mention parsed_example list \<Rightarrow>
   'tok tokenized_example list \<times> int list \<times> int \<Rightarrow> 's \<Rightarrow>
   (error + ('tok tokenized_example list \<times> int list \<times> int)) \<times> 's" where
  "tokenize_loop_st tk msl [] acc s = (Inr acc, s)"
| "tokenize_loop_st tk msl ((doc_key, ws, cls) # rest) (coref_examples, lens, num_filtered) s =
     (case align_words_st tk ws s of (st, s') \<Rightarrow>
        if 0 < msl \<and> msl < int (length (scan_token_ids st))
        then tokenize_loop_st tk msl rest (coref_examples, lens, num_filtered + 1) s'
        else
          (case remap_clusters st cls of
             Inl e \<Rightarrow> (Inl e, s')
           | Inr new_clusters \<Rightarrow>
               tokenize_loop_st tk msl rest
                 (coref_examples @
                    [((doc_key, end_token_idx_to_word_idx st),
                      CorefExample (scan_token_ids st) new_clusters)],
                  lens @ [int (length (scan_token_ids st))],
                  num_filtered) s'))"

definition tokenize_st ::
  "('s, 'tok) tokenizer_object \<Rightarrow> int \<Rightarrow> mention parsed_example list \<Rightarrow> 's \<Rightarrow>
   (error + ('tok tokenized_example list \<times> int list \<times> int)) \<times> 's" where
  "tokenize_st tk msl exs s = tokenize_loop_st tk msl exs ([], [], 0) s"

definition CorefDataset_init_st ::
  "mention document_record list \<Rightarrow> ('s, 'tok) tokenizer_object \<Rightarrow> 's \<Rightarrow> int \<Rightarrow>
   (error + 'tok CorefDataset) \<times> 's" where
  "CorefDataset_init_st records tk s msl =
     (case parse_jsonlines records of
        (exs, mmn, mcs, mnc) \<Rightarrow>
          (case tokenize_st tk msl exs s of
             (Inl e, s') \<Rightarrow> (Inl e, s')
           | (Inr (coref_examples, lens, num_filtered), s') \<Rightarrow>
               (Inr \<lparr> max_mention_num = mmn,
                      max_cluster_size = mcs,
                      max_num_clusters = mnc,
                      max_seq_length = msl,
                      examples = coref_examples,
                      lengths = lens,
                      num_examples_filtered = num_filtered \<rparr>, s')))"

text \<open>
  A tokenizer is deterministic when the subtokens it returns for a word do not depend on
  its state.
\<close>

definition deterministic_tokenizer :: "('s, 'tok) tokenizer_object \<Rightarrow> bool" where
  "deterministic_tokenizer tk \<longleftrightarrow> (\<forall>s s' w. fst (tk s w) = fst (tk s' w))"

text \<open>
  Two tokenizer objects that count their calls: the first returns the word itself whatever
  the count, the second returns as many copies of the word as calls made before.
\<close>

definition counting_tok :: "(nat, string) tokenizer_object" where
  "counting_tok n w = ([w], Suc n)"

definition drifting_tok :: "(nat, string) tokenizer_object" where
  "drifting_tok n w = (replicate n w, Suc n)"

section \<open>Properties of the word scan\<close>

lemma scan_words_token_ids:
  "scan_token_ids (scan_words tok ws idx st) = scan_token_ids st @ concat (map tok ws)"
  by (induction ws arbitrary: idx st) (simp_all add: scan_word_def Let_def)

lemma scan_words_start_old:
  "k < idx \<Longrightarrow>
   word_idx_to_start_token_idx (scan_words tok ws idx st) k = word_idx_to_start_token_idx st k"
  by (induction ws arbitrary: idx st) (simp_all add: scan_word_def Let_def)

lemma scan_words_end_old:
  "k < idx \<Longrightarrow>
   word_idx_to_end_token_idx (scan_words tok ws idx st) k = word_idx_to_end_token_idx st k"
  by (induction ws arbitrary: idx st) (simp_all add: scan_word_def Let_def)

lemma scan_words_start_beyond:
  "idx + int (length ws) \<le> k \<Longrightarrow>
   word_idx_to_start_token_idx (scan_words tok ws idx st) k = word_idx_to_start_token_idx st k"
  by (induction ws arbitrary: idx st) (simp_all add: scan_word_def Let_def)

lemma scan_words_end_beyond:
  "idx + int (length ws) \<le> k \<Longrightarrow>
   word_idx_to_end_token_idx (scan_words tok ws idx st) k = word_idx_to_end_token_idx st k"
  by (induction ws arbitrary: idx st) (simp_all add: scan_word_def Let_def)

lemma scan_word_token_ids:
  "scan_token_ids (scan_word tok idx w st) = scan_token_ids st @ tok w"
  by (simp add: scan_word_def Let_def)

lemma scan_words_start_at:
  "i < length ws \<Longrightarrow>
   word_idx_to_start_token_idx (scan_words tok ws idx st) (idx + int i) =
     Some (int (length (scan_token_ids st)) + int (length (concat (map tok (take i ws)))) + 1)"
proof (induction ws arbitrary: idx st i)
  case Nil
  then show ?case by simp
next
  case (Cons w ws)
  show ?case
  proof (cases i)
    case 0
    then show ?thesis
      by (simp add: scan_words_start_old) (simp add: scan_word_def Let_def)
  next
    case (Suc j)
    with Cons.prems have j: "j < length ws" by simp
    have eq: "idx + int i = (idx + 1) + int j" using Suc by simp
    show ?thesis
      unfolding eq scan_words.simps
      using Cons.IH [OF j, of "idx + 1" "scan_word tok idx w st"] Suc
      by (simp add: scan_word_token_ids)
  qed
qed

lemma scan_words_end_at:
  "i < length ws \<Longrightarrow>
   word_idx_to_end_token_idx (scan_words tok ws idx st) (idx + int i) =
     Some (int (length (scan_token_ids st)) + int (length (concat (map tok (take (Suc i) ws)))))"
proof (induction ws arbitrary: idx st i)
  case Nil
  then show ?case by simp
next
  case (Cons w ws)
  show ?case
  proof (cases i)
    case 0
    then show ?thesis
      by (simp add: scan_words_end_old) (simp add: scan_word_def Let_def)
  next
    case (Suc j)
    with Cons.prems have j: "j < length ws" by simp
    have eq: "idx + int i = (idx + 1) + int j" using Suc by simp
    show ?thesis
      unfolding eq scan_words.simps
      using Cons.IH [OF j, of "idx + 1" "scan_word tok idx w st"] Suc
      by (simp add: scan_word_token_ids)
  qed
qed

lemma align_words_token_ids: "scan_token_ids (align_words tok ws) = concat (map tok ws)"
  by (simp add: align_words_def scan_words_token_ids scan_init_def)

lemma align_words_start:
  "i < length ws \<Longrightarrow>
   word_idx_to_start_token_idx (align_words tok ws) (int i) =
     Some (int (length (emitted_before tok ws i)) + 1)"
  using scan_words_start_at [of i ws tok 0 scan_init]
  by (simp add: align_words_def emitted_before_def scan_init_def)

lemma align_words_end:
  "i < length ws \<Longrightarrow>
   word_idx_to_end_token_idx (align_words tok ws) (int i) =
     Some (int (length (emitted_before tok ws (Suc i))))"
  using scan_words_end_at [of i ws tok 0 scan_init]
  by (simp add: align_words_def emitted_before_def scan_init_def)

lemma emitted_before_Suc:
  "i < length ws \<Longrightarrow> emitted_before tok ws (Suc i) = emitted_before tok ws i @ tok (ws ! i)"
  by (simp add: emitted_before_def take_Suc_conv_app_nth)

lemma span_of_run:
  "take (length r) (drop (Suc (length b)) (bos # (b @ r @ a))) = r"
  by simp

lemma align_words_token_ids_split:
  assumes "i < length ws"
  shows "scan_token_ids (align_words tok ws) =
           emitted_before tok ws i @ tok (ws ! i) @ concat (map tok (drop (Suc i) ws))"
proof -
  have "ws = take i ws @ (ws ! i) # drop (Suc i) ws"
    using assms by (simp add: id_take_nth_drop)
  then have "concat (map tok ws) = concat (map tok (take i ws @ (ws ! i) # drop (Suc i) ws))"
    by simp
  then show ?thesis
    by (simp add: align_words_token_ids emitted_before_def)
qed

section \<open>First and last subtoken index of a word\<close>

text \<open>
  Claim C1. For every word index \<open>i\<close> of a document, the recorded first-subtoken index is
  the number of subtokens emitted before the word is tokenized, plus one, and the recorded
  last-subtoken index is the number emitted once it has been tokenized. When the word has
  at least one subtoken, \<open>first \<le> last\<close> and the positions \<open>first..last\<close> (inclusive) of
  the sequence with a start token \<open>bos\<close> in front hold exactly the subtokens of the word.
\<close>

theorem first_last_subtoken_index:
  "i < length ws \<Longrightarrow>
   (\<exists>f l. word_idx_to_start_token_idx (align_words tok ws) (int i) = Some f \<and>
          word_idx_to_end_token_idx (align_words tok ws) (int i) = Some l \<and>
          f = int (length (emitted_before tok ws i)) + 1 \<and>
          l = int (length (emitted_before tok ws (Suc i))) \<and>
          (tok (ws ! i) \<noteq> [] \<longrightarrow>
             f \<le> l \<and>
             take (nat (l - f + 1)) (drop (nat f) (bos # scan_token_ids (align_words tok ws)))
               = tok (ws ! i)))"
proof -
  assume i: "i < length ws"
  let ?b = "emitted_before tok ws i"
  let ?r = "tok (ws ! i)"
  have suc: "emitted_before tok ws (Suc i) = ?b @ ?r"
    using i by (rule emitted_before_Suc)
  have cover: "take (nat (int (length (?b @ ?r)) - (int (length ?b) + 1) + 1))
                 (drop (nat (int (length ?b) + 1)) (bos # scan_token_ids (align_words tok ws))) = ?r"
  proof -
    have 1: "nat (int (length (?b @ ?r)) - (int (length ?b) + 1) + 1) = length ?r" by simp
    have 2: "nat (int (length ?b) + 1) = Suc (length ?b)" by simp
    show ?thesis
      unfolding 1 2 align_words_token_ids_split [OF i, of tok] by (rule span_of_run)
  qed
  show ?thesis
    using align_words_start [OF i, of tok] align_words_end [OF i, of tok] cover
    by (simp add: suc Suc_le_eq)
qed

theorem first_last_subtoken_index_witness:
  "(0::nat) < length [''ab'', '''', ''c''] \<and>
   word_idx_to_start_token_idx (align_words char_tok [''ab'', '''', ''c'']) 0 = Some 1 \<and>
   word_idx_to_end_token_idx (align_words char_tok [''ab'', '''', ''c'']) 0 = Some 2 \<and>
   take 2 (drop 1 (CHR ''s'' # scan_token_ids (align_words char_tok [''ab'', '''', ''c''])))
     = char_tok ''ab''"
  using first_last_subtoken_index [of 0 "[''ab'', '''', ''c'']" char_tok "CHR ''s''"]
  by (simp add: emitted_before_def char_tok_def)

section \<open>Words without subtokens\<close>

text \<open>
  Claim C7. For a word that tokenizes to no subtoken, the recorded last-subtoken index is
  the running token count before the word (the cursor has not moved), which is one less
  than the recorded first-subtoken index.
\<close>

theorem zero_expansion_word:
  "i < length ws \<Longrightarrow> tok (ws ! i) = [] \<Longrightarrow>
   (\<exists>f l. word_idx_to_start_token_idx (align_words tok ws) (int i) = Some f \<and>
          word_idx_to_end_token_idx (align_words tok ws) (int i) = Some l \<and>
          l = int (length (emitted_before tok ws i)) \<and>
          l = f - 1)"
  using align_words_start [of i ws tok] align_words_end [of i ws tok]
  by (simp add: emitted_before_Suc)

theorem zero_expansion_word_witness:
  "(1::nat) < length [''ab'', '''', ''c''] \<and> char_tok ([''ab'', '''', ''c''] ! 1) = [] \<and>
   word_idx_to_start_token_idx (align_words char_tok [''ab'', '''', ''c'']) 1 = Some 3 \<and>
   word_idx_to_end_token_idx (align_words char_tok [''ab'', '''', ''c'']) 1 = Some 2"
  using zero_expansion_word [of 1 "[''ab'', '''', ''c'']" char_tok]
  by (simp add: emitted_before_def char_tok_def)

lemma align_words_start_dom:
  "word_idx_to_start_token_idx (align_words tok ws) k = None \<longleftrightarrow> \<not> (0 \<le> k \<and> k < int (length ws))"
proof (cases "0 \<le> k \<and> k < int (length ws)")
  case True
  then have "nat k < length ws" by linarith
  from align_words_start [OF this, of tok] True show ?thesis by simp
next
  case False
  then consider "k < 0" | "int (length ws) \<le> k" by linarith
  then have "word_idx_to_start_token_idx (align_words tok ws) k = None"
  proof cases
    case 1
    then show ?thesis
      by (simp add: align_words_def scan_words_start_old scan_init_def)
  next
    case 2
    then show ?thesis
      by (simp add: align_words_def scan_words_start_beyond scan_init_def)
  qed
  with False show ?thesis by simp
qed

lemma align_words_end_dom:
  "word_idx_to_end_token_idx (align_words tok ws) k = None \<longleftrightarrow> \<not> (0 \<le> k \<and> k < int (length ws))"
proof (cases "0 \<le> k \<and> k < int (length ws)")
  case True
  then have "nat k < length ws" by linarith
  from align_words_end [OF this, of tok] True show ?thesis by simp
next
  case False
  then consider "k < 0" | "int (length ws) \<le> k" by linarith
  then have "word_idx_to_end_token_idx (align_words tok ws) k = None"
  proof cases
    case 1
    then show ?thesis
      by (simp add: align_words_def scan_words_end_old scan_init_def)
  next
    case 2
    then show ?thesis
      by (simp add: align_words_def scan_words_end_beyond scan_init_def)
  qed
  with False show ?thesis by simp
qed

lemma remap_mention_in_range:
  "in_word_range (length ws) m \<Longrightarrow>
   \<exists>m'. remap_mention (align_words tok ws) m = Inr m' \<and> remapped (align_words tok ws) m m'"
  using align_words_start_dom [of tok ws "fst m"] align_words_end_dom [of tok ws "snd m - 1"]
  by (cases m) (auto simp: in_word_range_def remap_mention_def remapped_def split: option.splits)

lemma remap_mention_out_of_range:
  "\<not> in_word_range (length ws) m \<Longrightarrow> \<exists>k. remap_mention (align_words tok ws) m = Inl (KeyError k)"
  using align_words_start_dom [of tok ws "fst m"] align_words_end_dom [of tok ws "snd m - 1"]
  by (cases m) (auto simp: in_word_range_def remap_mention_def split: option.splits)

lemma remap_cluster_in_range:
  "list_all (in_word_range (length ws)) c \<Longrightarrow>
   \<exists>c'. remap_cluster (align_words tok ws) c = Inr c' \<and> list_all2 (remapped (align_words tok ws)) c c'"
proof (induction c)
  case Nil
  then show ?case by simp
next
  case (Cons m ms)
  then obtain m' ms' where
    "remap_mention (align_words tok ws) m = Inr m'" "remapped (align_words tok ws) m m'"
    "remap_cluster (align_words tok ws) ms = Inr ms'" "list_all2 (remapped (align_words tok ws)) ms ms'"
    using remap_mention_in_range [of ws m tok] by auto
  then show ?case by simp
qed

lemma remap_cluster_out_of_range:
  "\<not> list_all (in_word_range (length ws)) c \<Longrightarrow>
   \<exists>k. remap_cluster (align_words tok ws) c = Inl (KeyError k)"
proof (induction c)
  case Nil
  then show ?case by simp
next
  case (Cons m ms)
  show ?case
  proof (cases "in_word_range (length ws) m")
    case True
    with Cons obtain k where "remap_cluster (align_words tok ws) ms = Inl (KeyError k)" by auto
    moreover obtain m' where "remap_mention (align_words tok ws) m = Inr m'"
      using remap_mention_in_range [OF True, of tok] by blast
    ultimately show ?thesis by simp
  next
    case False
    from remap_mention_out_of_range [OF this, of tok] show ?thesis by auto
  qed
qed

lemma remap_clusters_in_range:
  "mentions_in_range (length ws) cls \<Longrightarrow>
   \<exists>new. remap_clusters (align_words tok ws) cls = Inr new \<and>
         list_all2 (list_all2 (remapped (align_words tok ws))) cls new"
  unfolding mentions_in_range_def
proof (induction cls)
  case Nil
  then show ?case by simp
next
  case (Cons c cs)
  then obtain c' cs' where
    "remap_cluster (align_words tok ws) c = Inr c'" "list_all2 (remapped (align_words tok ws)) c c'"
    "remap_clusters (align_words tok ws) cs = Inr cs'"
    "list_all2 (list_all2 (remapped (align_words tok ws))) cs cs'"
    using remap_cluster_in_range [of ws c tok] by auto
  then show ?case by simp
qed

lemma remap_clusters_out_of_range:
  "\<not> mentions_in_range (length ws) cls \<Longrightarrow>
   \<exists>k. remap_clusters (align_words tok ws) cls = Inl (KeyError k)"
  unfolding mentions_in_range_def
proof (induction cls)
  case Nil
  then show ?case by simp
next
  case (Cons c cs)
  show ?case
  proof (cases "list_all (in_word_range (length ws)) c")
    case True
    with Cons obtain k where "remap_clusters (align_words tok ws) cs = Inl (KeyError k)" by auto
    moreover obtain c' where "remap_cluster (align_words tok ws) c = Inr c'"
      using remap_cluster_in_range [OF True, of tok] by blast
    ultimately show ?thesis by simp
  next
    case False
    from remap_cluster_out_of_range [OF this, of tok] show ?thesis by auto
  qed
qed

lemma too_long_scan:
  "too_long tok msl (k, ws, cls) \<longleftrightarrow> 0 < msl \<and> msl < int (length (scan_token_ids (align_words tok ws)))"
  by (simp add: too_long_def doc_tokens_def align_words_token_ids)

lemma tokenize_loop_skip:
  "too_long tok msl (doc_key, ws, cls) \<Longrightarrow>
   tokenize_loop tok msl ((doc_key, ws, cls) # rest) (ces, lens, nf) =
   tokenize_loop tok msl rest (ces, lens, nf + 1)"
  by (simp add: too_long_scan Let_def)

lemma tokenize_loop_keep:
  "\<not> too_long tok msl (doc_key, ws, cls) \<Longrightarrow>
   remap_clusters (align_words tok ws) cls = Inr new \<Longrightarrow>
   tokenize_loop tok msl ((doc_key, ws, cls) # rest) (ces, lens, nf) =
   tokenize_loop tok msl rest
     (ces @ [((doc_key, end_token_idx_to_word_idx (align_words tok ws)),
              CorefExample (scan_token_ids (align_words tok ws)) new)],
      lens @ [int (length (scan_token_ids (align_words tok ws)))], nf)"
  by (auto simp: too_long_scan Let_def)

lemma tokenize_loop_raise:
  "\<not> too_long tok msl (doc_key, ws, cls) \<Longrightarrow>
   remap_clusters (align_words tok ws) cls = Inl e \<Longrightarrow>
   tokenize_loop tok msl ((doc_key, ws, cls) # rest) (ces, lens, nf) = Inl e"
  by (auto simp: too_long_scan Let_def)

section \<open>Remapping the clusters of a surviving document\<close>

text \<open>
  Claim C2. For a document that the length filter keeps: if every mention names words of
  the document (\<open>start\<close> and \<open>end - 1\<close> both in \<open>[0, word_count)\<close>), the remapping
  succeeds, every mention \<open>(start, end)\<close> becomes
  \<open>(word_idx_to_start_token_idx[start], word_idx_to_end_token_idx[end - 1])\<close> at the same
  position, and the loop goes on with the example appended; otherwise the remapping, and
  with it \<open>_tokenize\<close>, ends in a \<open>KeyError\<close>. So the remapping raises exactly when
  some mention is out of the word range.
\<close>

theorem remap_surviving_document:
  "\<not> too_long tok msl (doc_key, ws, cls) \<Longrightarrow>
   (mentions_in_range (length ws) cls \<longrightarrow>
      (\<exists>new. remap_clusters (align_words tok ws) cls = Inr new \<and>
             list_all2 (list_all2 (remapped (align_words tok ws))) cls new \<and>
             tokenize_loop tok msl ((doc_key, ws, cls) # rest) (ces, lens, nf) =
             tokenize_loop tok msl rest
               (ces @ [((doc_key, end_token_idx_to_word_idx (align_words tok ws)),
                        CorefExample (scan_token_ids (align_words tok ws)) new)],
                lens @ [int (length (scan_token_ids (align_words tok ws)))], nf))) \<and>
   (\<not> mentions_in_range (length ws) cls \<longrightarrow>
      (\<exists>k. remap_clusters (align_words tok ws) cls = Inl (KeyError k) \<and>
           tokenize_loop tok msl ((doc_key, ws, cls) # rest) (ces, lens, nf) = Inl (KeyError k))) \<and>
   ((\<exists>e. remap_clusters (align_words tok ws) cls = Inl e) \<longleftrightarrow>
      \<not> mentions_in_range (length ws) cls)"
proof -
  assume keep: "\<not> too_long tok msl (doc_key, ws, cls)"
  show ?thesis
  proof (cases "mentions_in_range (length ws) cls")
    case True
    from remap_clusters_in_range [OF True, of tok] obtain new where
      new: "remap_clusters (align_words tok ws) cls = Inr new"
           "list_all2 (list_all2 (remapped (align_words tok ws))) cls new"
      by blast
    from tokenize_loop_keep [OF keep new(1)] new True show ?thesis by simp
  next
    case False
    from remap_clusters_out_of_range [OF False, of tok] obtain k where
      k: "remap_clusters (align_words tok ws) cls = Inl (KeyError k)"
      by blast
    from tokenize_loop_raise [OF keep k] k False show ?thesis by simp
  qed
qed

theorem remap_surviving_document_witness:
  "\<not> too_long word_tok (- 1) (''d'', [''a'', ''b''], [[(0, 2)], [(1, 3)]]) \<and>
   \<not> mentions_in_range (length [''a'', ''b'']) [[(0, 2)], [(1, 3)]] \<and>
   remap_clusters (align_words word_tok [''a'', ''b'']) [[(0, 2)], [(1, 3)]] = Inl (KeyError 2) \<and>
   tokenize word_tok (- 1) [(''d'', [''a'', ''b''], [[(0, 2)], [(1, 3)]])] = Inl (KeyError 2) \<and>
   mentions_in_range (length [''a'', ''b'']) [[(0, 2)], [(1, 2)]] \<and>
   remap_clusters (align_words word_tok [''a'', ''b'']) [[(0, 2)], [(1, 2)]] = Inr [[(1, 2)], [(2, 2)]]"
  using remap_surviving_document
    [of word_tok "- 1" "''d''" "[''a'', ''b'']" "[[(0, 2)], [(1, 3)]]" "[]" "[]" "[]" 0]
  by (simp add: too_long_def doc_tokens_def mentions_in_range_def in_word_range_def
      align_words_def scan_init_def scan_word_def remap_mention_def word_tok_def tokenize_def)

section \<open>The length filter comes before the remapping\<close>

text \<open>
  Claim C10. A document whose subtoken count exceeds a positive \<open>max_seq_length\<close> is
  counted and skipped: the loop goes on with the same outputs and the filtered counter one
  higher, whatever the clusters of the document are (they are never looked up, so no
  mention of it can raise).
\<close>

theorem filtered_document_skipped:
  "too_long tok msl (doc_key, ws, cls) \<Longrightarrow>
   tokenize_loop tok msl ((doc_key, ws, cls) # rest) (ces, lens, nf) =
     tokenize_loop tok msl rest (ces, lens, nf + 1) \<and>
   tokenize_loop tok msl ((doc_key, ws, cls) # rest) (ces, lens, nf) =
     tokenize_loop tok msl ((doc_key, ws, cls') # rest) (ces, lens, nf)"
proof -
  assume long: "too_long tok msl (doc_key, ws, cls)"
  then have "too_long tok msl (doc_key, ws, cls')"
    by (simp add: too_long_def doc_tokens_def)
  from tokenize_loop_skip [OF long] tokenize_loop_skip [OF this] show ?thesis by simp
qed

theorem filtered_document_skipped_witness:
  "too_long word_tok 1 (''d'', [''a'', ''b''], [[(5, 9)]]) \<and>
   \<not> well_indexed (''d'', [''a'', ''b''], [[(5, 9)]]) \<and>
   tokenize word_tok 1 [(''d'', [''a'', ''b''], [[(5, 9)]])] = Inr ([], [], 1) \<and>
   tokenize word_tok 0 [(''d'', [''a'', ''b''], [[(5, 9)]])] = Inl (KeyError 5)"
  using filtered_document_skipped [of word_tok 1 "''d''" "[''a'', ''b'']" "[[(5, 9)]]" "[]" "[]" "[]" 0]
  by (simp add: too_long_def doc_tokens_def well_indexed_def mentions_in_range_def in_word_range_def
      align_words_def scan_init_def scan_word_def remap_mention_def word_tok_def tokenize_def)

lemma tokenize_loop_result:
  "\<forall>d\<in>set docs. \<not> too_long tok msl d \<longrightarrow> well_indexed d \<Longrightarrow>
   \<exists>new. tokenize_loop tok msl docs (ces, lens, nf) =
           Inr (ces @ new, lens @ map (\<lambda>ce. int (length (token_ids (snd ce)))) new,
                nf + int (length (filter (too_long tok msl) docs))) \<and>
         list_all2 (aligned_example tok) (filter (\<lambda>d. \<not> too_long tok msl d) docs) new"
proof (induction docs arbitrary: ces lens nf)
  case Nil
  then show ?case by simp
next
  case (Cons d docs)
  obtain doc_key ws cls where d: "d = (doc_key, ws, cls)" by (cases d) auto
  from Cons.prems have rest: "\<forall>d\<in>set docs. \<not> too_long tok msl d \<longrightarrow> well_indexed d" by simp
  show ?case
  proof (cases "too_long tok msl d")
    case True
    from Cons.IH [OF rest, of ces lens "nf + 1"] obtain new where
      "tokenize_loop tok msl docs (ces, lens, nf + 1) =
         Inr (ces @ new, lens @ map (\<lambda>ce. int (length (token_ids (snd ce)))) new,
              nf + 1 + int (length (filter (too_long tok msl) docs)))"
      "list_all2 (aligned_example tok) (filter (\<lambda>d. \<not> too_long tok msl d) docs) new"
      by blast
    with True tokenize_loop_skip [of tok msl doc_key ws cls docs ces lens nf] show ?thesis
      unfolding d by auto
  next
    case False
    with Cons.prems have "mentions_in_range (length ws) cls"
      by (simp add: d well_indexed_def)
    from remap_clusters_in_range [OF this, of tok] obtain new_clusters where
      nc: "remap_clusters (align_words tok ws) cls = Inr new_clusters" by blast
    let ?st = "align_words tok ws"
    let ?ce = "((doc_key, end_token_idx_to_word_idx ?st), CorefExample (scan_token_ids ?st) new_clusters)"
    from Cons.IH [OF rest, of "ces @ [?ce]" "lens @ [int (length (scan_token_ids ?st))]" nf]
    obtain new where new:
      "tokenize_loop tok msl docs (ces @ [?ce], lens @ [int (length (scan_token_ids ?st))], nf) =
         Inr ((ces @ [?ce]) @ new,
              (lens @ [int (length (scan_token_ids ?st))]) @ map (\<lambda>ce. int (length (token_ids (snd ce)))) new,
              nf + int (length (filter (too_long tok msl) docs)))"
      "list_all2 (aligned_example tok) (filter (\<lambda>d. \<not> too_long tok msl d) docs) new"
      by blast
    have "aligned_example tok d ?ce"
      by (simp add: d aligned_example_def nc align_words_token_ids)
    with new False tokenize_loop_keep [of tok msl doc_key ws cls new_clusters docs ces lens nf] nc
    have "tokenize_loop tok msl (d # docs) (ces, lens, nf) =
            Inr (ces @ (?ce # new), lens @ map (\<lambda>ce. int (length (token_ids (snd ce)))) (?ce # new),
                 nf + int (length (filter (too_long tok msl) (d # docs)))) \<and>
          list_all2 (aligned_example tok) (filter (\<lambda>d. \<not> too_long tok msl d) (d # docs)) (?ce # new)"
      unfolding d by simp
    then show ?thesis by blast
  qed
qed

section \<open>The length filter\<close>

text \<open>
  Claim C3. When no kept document has a mention out of range, \<open>_tokenize\<close> returns; its
  examples are the aligned forms of exactly the documents that are not too long, in input
  order and with their whole subtoken sequence; the length list holds the subtoken count of
  the example at the same position; the filtered counter is the number of documents that
  are too long (one per such document); and with \<open>max_seq_length \<le> 0\<close> nothing is
  filtered.
\<close>

theorem length_filter:
  "\<forall>d\<in>set docs. \<not> too_long tok msl d \<longrightarrow> well_indexed d \<Longrightarrow>
   \<exists>ces lens nf.
     tokenize tok msl docs = Inr (ces, lens, nf) \<and>
     list_all2 (aligned_example tok) (filter (\<lambda>d. \<not> too_long tok msl d) docs) ces \<and>
     lens = map (\<lambda>ce. int (length (token_ids (snd ce)))) ces \<and>
     nf = int (length (filter (too_long tok msl) docs)) \<and>
     (msl \<le> 0 \<longrightarrow> nf = 0 \<and> length ces = length docs)"
proof -
  assume ok: "\<forall>d\<in>set docs. \<not> too_long tok msl d \<longrightarrow> well_indexed d"
  from tokenize_loop_result [OF ok, of "[]" "[]" 0] obtain new where new:
    "tokenize tok msl docs =
       Inr (new, map (\<lambda>ce. int (length (token_ids (snd ce)))) new,
            int (length (filter (too_long tok msl) docs)))"
    "list_all2 (aligned_example tok) (filter (\<lambda>d. \<not> too_long tok msl d) docs) new"
    by (auto simp: tokenize_def)
  have "msl \<le> 0 \<Longrightarrow> filter (too_long tok msl) docs = [] \<and> filter (\<lambda>d. \<not> too_long tok msl d) docs = docs"
    by (simp add: too_long_def)
  with new(2) have "msl \<le> 0 \<longrightarrow> int (length (filter (too_long tok msl) docs)) = 0 \<and> length new = length docs"
    by (auto dest: list_all2_lengthD)
  with new show ?thesis by blast
qed

theorem length_filter_witness:
  "list_all (\<lambda>d. too_long word_tok 2 d \<or> well_indexed d) three_documents \<and>
   tokenize word_tok 2 three_documents =
     Inr ([((''d1'', [0, 0, 1]), CorefExample [''a'', ''b''] [[(1, 1), (2, 2)]]),
           ((''d3'', [0, 0]), CorefExample [''f''] [])],
          [2, 1], 1)"
  using length_filter [of three_documents word_tok 2]
  by (simp add: three_documents_def too_long_def doc_tokens_def well_indexed_def
      mentions_in_range_def in_word_range_def align_words_def scan_init_def scan_word_def
      remap_mention_def word_tok_def tokenize_def)

section \<open>The concrete scenario\<close>

text \<open>
  Claim C6. For the twelve words of "John Smith is a nice guy . He lives in London ." with
  the single cluster \<open>[[0,2],[7,8]]\<close>, and any tokenizer that gives every word exactly
  one subtoken, the aligner yields \<open>token_ids\<close> of length 12 and the clusters
  \<open>[[(1,2),(8,8)]]\<close> (with a \<open>max_seq_length\<close> that does not drop a document of 12
  subtokens, as the default \<open>-1\<close>).
\<close>

theorem john_smith_scenario:
  "\<forall>w. length (tok w) = 1 \<Longrightarrow> \<not> (0 < msl \<and> msl < 12) \<Longrightarrow>
   tokenize tok msl [(doc_key, john_smith_words, [[(0, 2), (7, 8)]])] =
     Inr ([((doc_key, [0, 0, 1, 2, 3, 4, 5, 6, 7, 8, 9, 10, 11]),
            CorefExample (concat (map tok john_smith_words)) [[(1, 2), (8, 8)]])],
          [12], 0) \<and>
   length (concat (map tok john_smith_words)) = 12"
  by (simp add: john_smith_words_def tokenize_def align_words_def scan_init_def scan_word_def
      remap_mention_def Let_def)

theorem john_smith_scenario_witness:
  "(\<forall>w. length (word_tok w) = 1) \<and> \<not> (0 < (- 1 :: int) \<and> (- 1 :: int) < 12) \<and>
   tokenize word_tok (- 1) [(''doc'', john_smith_words, [[(0, 2), (7, 8)]])] =
     Inr ([((''doc'', [0, 0, 1, 2, 3, 4, 5, 6, 7, 8, 9, 10, 11]),
            CorefExample john_smith_words [[(1, 2), (8, 8)]])],
          [12], 0)"
  using john_smith_scenario [of word_tok "- 1" "''doc''"]
  by (simp add: john_smith_words_def word_tok_def)

lemma Max_insert_step:
  "finite A \<Longrightarrow> Max (insert (max a x) A) = Max (insert (a::int) (insert x A))"
  by (cases "A = {}") (simp_all add: max.assoc)

lemma foldl_max_Max:
  "foldl max (x::int) xs = Max (insert x (set xs))"
  by (induction xs arbitrary: x) (simp_all add: Max_insert_step)

lemma largest_cluster_candidate:
  "largest_cluster cls = cluster_size_candidate (doc_key, sentences, cls)"
proof (cases cls)
  case Nil
  then show ?thesis by (simp add: largest_cluster_def cluster_size_candidate_def)
next
  case (Cons c cs)
  have "foldl max (int (length c)) (map (\<lambda>cluster. int (length cluster)) cs) =
        Max (insert (int (length c)) (set (map (\<lambda>cluster. int (length cluster)) cs)))"
    by (rule foldl_max_Max)
  then show ?thesis
    using Cons by (simp add: largest_cluster_def cluster_size_candidate_def)
qed

lemma parse_loop_result:
  "parse_loop records (exs, a, b, c) =
     (exs @ map flatten_record records,
      Max (insert a (mention_count ` set records)),
      Max (insert b (cluster_size_candidate ` set records)),
      Max (insert c (cluster_count ` set records)))"
proof (induction records arbitrary: exs a b c)
  case Nil
  then show ?case by simp
next
  case (Cons d records)
  obtain doc_key sentences cls where d: "d = (doc_key, sentences, cls)" by (cases d) auto
  have 1: "int (length (flatten_list_of_lists cls)) = mention_count d"
    by (simp add: d mention_count_def flatten_list_of_lists_def)
  have 2: "largest_cluster cls = cluster_size_candidate d"
    unfolding d by (rule largest_cluster_candidate)
  have 3: "(if cls \<noteq> [] then int (length cls) else 0) = cluster_count d"
    by (simp add: d cluster_count_def)
  have 4: "(doc_key, flatten_list_of_lists sentences, cls) = flatten_record d"
    by (simp add: d flatten_record_def flatten_list_of_lists_def)
  have "parse_loop (d # records) (exs, a, b, c) =
        parse_loop records (exs @ [flatten_record d], max a (mention_count d),
                            max b (cluster_size_candidate d), max c (cluster_count d))"
    unfolding d parse_loop.simps Let_def
    unfolding 1 [unfolded d] 2 [unfolded d] 3 [unfolded d] 4 [unfolded d] ..
  then show ?case
    by (simp add: Cons.IH Max_insert_step)
qed

lemma Max_insert_minus_one:
  assumes "records \<noteq> []" and "\<forall>d. (0::int) \<le> f d"
  shows "Max (insert (- 1) (f ` set records)) = Max (f ` set records)"
proof -
  from assms(1) obtain d where "d \<in> set records" by (cases records) auto
  then have "f d \<le> Max (f ` set records)" by simp
  moreover from assms(2) have "0 \<le> f d" by simp
  ultimately have "- 1 \<le> Max (f ` set records)" by linarith
  then show ?thesis
    using assms(1) by (simp add: max_def)
qed

lemma mention_count_nonneg: "0 \<le> mention_count d"
  by (simp add: mention_count_def split: prod.splits)

lemma cluster_size_candidate_nonneg: "0 \<le> cluster_size_candidate d"
proof -
  obtain doc_key sentences cls where d: "d = (doc_key, sentences, cls)" by (cases d) auto
  show ?thesis
  proof (cases cls)
    case Nil
    then show ?thesis by (simp add: d cluster_size_candidate_def)
  next
    case (Cons c cs)
    have "int (length c) \<le> Max ((\<lambda>cluster. int (length cluster)) ` set cls)"
      using Cons by simp
    then have "0 \<le> Max ((\<lambda>cluster. int (length cluster)) ` set cls)"
      by linarith
    moreover have "cluster_size_candidate d = Max ((\<lambda>cluster. int (length cluster)) ` set cls)"
      using Cons by (simp add: d cluster_size_candidate_def)
    ultimately show ?thesis by simp
  qed
qed

lemma cluster_count_nonneg: "0 \<le> cluster_count d"
  by (simp add: cluster_count_def split: prod.splits)

lemma parse_jsonlines_result:
  "parse_jsonlines records =
     (map flatten_record records,
      Max (insert (- 1) (mention_count ` set records)),
      Max (insert (- 1) (cluster_size_candidate ` set records)),
      Max (insert (- 1) (cluster_count ` set records)))"
  by (simp add: parse_jsonlines_def parse_loop_result)

section \<open>The corpus maxima\<close>

text \<open>
  Claim C8. The parser returns the flattened examples in order, \<open>max_mention_num\<close> as the
  maximum over the documents of the total number of mentions, \<open>max_cluster_size\<close> as the
  maximum over the documents of the largest cluster (0 for a document without clusters) and
  \<open>max_num_clusters\<close> as the maximum over the documents of the number of clusters; each is
  a running maximum that starts at \<open>-1\<close>, so all three are \<open>-1\<close> for the empty corpus and
  the plain maximum for a corpus with at least one document.
\<close>

theorem corpus_maxima:
  "parse_jsonlines (records :: 'm document_record list) =
     (map flatten_record records,
      Max (insert (- 1) (mention_count ` set records)),
      Max (insert (- 1) (cluster_size_candidate ` set records)),
      Max (insert (- 1) (cluster_count ` set records))) \<and>
   (records \<noteq> [] \<longrightarrow>
      parse_jsonlines records =
        (map flatten_record records,
         Max (mention_count ` set records),
         Max (cluster_size_candidate ` set records),
         Max (cluster_count ` set records))) \<and>
   parse_jsonlines ([] :: 'm document_record list) = ([], - 1, - 1, - 1)"
  using Max_insert_minus_one [of records mention_count]
    Max_insert_minus_one [of records cluster_size_candidate]
    Max_insert_minus_one [of records cluster_count]
  by (simp add: parse_jsonlines_result mention_count_nonneg cluster_size_candidate_nonneg
      cluster_count_nonneg)

theorem corpus_maxima_witness:
  "two_records \<noteq> [] \<and>
   parse_jsonlines two_records =
     ([(''d1'', [''a'', ''b'', ''c''], [[(0, 1), (1, 2), (2, 3)], [(0, 2)]]), (''d2'', [''d''], [])],
      4, 3, 2) \<and>
   Max (mention_count ` set two_records) = 4 \<and>
   Max (cluster_size_candidate ` set two_records) = 3 \<and>
   Max (cluster_count ` set two_records) = 2"
  using corpus_maxima [of two_records]
  by (simp add: two_records_def flatten_record_def mention_count_def cluster_size_candidate_def
      cluster_count_def)

lemma two_records_dataset_init:
  "CorefDataset_init two_records word_tok (- 1) = Inr two_records_dataset"
  by (simp add: CorefDataset_init_def two_records_def two_records_dataset_def parse_jsonlines_def
      flatten_list_of_lists_def largest_cluster_def tokenize_def align_words_def scan_init_def
      scan_word_def remap_mention_def word_tok_def)

lemma length_pad_clusters_outside:
  "int (length cls) \<le> max_num_clusters self \<Longrightarrow>
   int (length (pad_clusters_outside self cls)) = max_num_clusters self"
  by (simp add: pad_clusters_outside_def)

lemma set_pad_clusters_outside:
  "set (pad_clusters_outside self cls) \<subseteq> insert [] (set cls)"
  by (auto simp: pad_clusters_outside_def)

lemma length_pad_clusters_inside:
  "length (pad_clusters_inside self null_id cls) = length cls"
  by (simp add: pad_clusters_inside_def)

lemma pad_clusters_inside_sizes:
  "\<forall>c\<in>set cls. int (length c) \<le> max_cluster_size self \<Longrightarrow>
   \<forall>c\<in>set (pad_clusters_inside self null_id cls). int (length c) = max_cluster_size self"
  by (auto simp: pad_clusters_inside_def)

lemma pad_clusters_shape_nonneg:
  assumes "0 \<le> max_cluster_size self"
    and "int (length cls) \<le> max_num_clusters self"
    and "\<forall>c\<in>set cls. int (length c) \<le> max_cluster_size self"
  shows "int (length (pad_clusters self null_id cls)) = max_num_clusters self \<and>
         (\<forall>c\<in>set (pad_clusters self null_id cls). int (length c) = max_cluster_size self)"
proof -
  have "\<forall>c\<in>set (pad_clusters_outside self cls). int (length c) \<le> max_cluster_size self"
    using assms(1,3) set_pad_clusters_outside [of self cls] by auto
  from pad_clusters_inside_sizes [OF this, of null_id] length_pad_clusters_outside [OF assms(2)]
  show ?thesis
    by (simp add: pad_clusters_def length_pad_clusters_inside)
qed

lemma CorefDataset_init_maxima:
  assumes "CorefDataset_init records tok msl = Inr self"
  shows "max_cluster_size self = Max (insert (- 1) (cluster_size_candidate ` set records))"
    and "max_num_clusters self = Max (insert (- 1) (cluster_count ` set records))"
  using assms
  by (auto simp: CorefDataset_init_def parse_jsonlines_result split: sum.splits prod.splits)

lemma CorefDataset_init_sizes:
  assumes "CorefDataset_init records tok msl = Inr self" and "0 \<le> max_num_clusters self"
  shows "0 \<le> max_cluster_size self"
proof -
  have ne: "records \<noteq> []"
  proof
    assume "records = []"
    with CorefDataset_init_maxima(2) [OF assms(1)] assms(2) show False by simp
  qed
  then obtain d where "d \<in> set records" by (cases records) auto
  then have "cluster_size_candidate d \<le> Max (insert (- 1) (cluster_size_candidate ` set records))"
    by simp
  with cluster_size_candidate_nonneg [of d] CorefDataset_init_maxima(1) [OF assms(1)]
  show ?thesis by linarith
qed

section \<open>The shape of padded clusters\<close>

text \<open>
  Claim C4. For a dataset built by \<open>__init__\<close> and a cluster list of at most
  \<open>max_num_clusters\<close> clusters, each of at most \<open>max_cluster_size\<close> mentions,
  \<open>pad_clusters\<close> returns exactly \<open>max_num_clusters\<close> clusters of exactly
  \<open>max_cluster_size\<close> mention pairs each, whatever the number of real clusters and
  mentions.
\<close>

theorem pad_clusters_shape:
  "CorefDataset_init records tok msl = Inr self \<Longrightarrow>
   int (length cls) \<le> max_num_clusters self \<Longrightarrow>
   \<forall>c\<in>set cls. int (length c) \<le> max_cluster_size self \<Longrightarrow>
   int (length (pad_clusters self null_id cls)) = max_num_clusters self \<and>
   (\<forall>c\<in>set (pad_clusters self null_id cls). int (length c) = max_cluster_size self)"
proof -
  assume init: "CorefDataset_init records tok msl = Inr self"
    and n: "int (length cls) \<le> max_num_clusters self"
    and s: "\<forall>c\<in>set cls. int (length c) \<le> max_cluster_size self"
  from n have "0 \<le> max_num_clusters self" by linarith
  from CorefDataset_init_sizes [OF init this] n s show ?thesis
    by (rule pad_clusters_shape_nonneg)
qed

theorem pad_clusters_shape_witness:
  "CorefDataset_init two_records word_tok (- 1) = Inr two_records_dataset \<and>
   int (length [[(4, 5), (7, 7)]]) \<le> max_num_clusters two_records_dataset \<and>
   list_all (\<lambda>c. int (length c) \<le> max_cluster_size two_records_dataset) [[(4, 5), (7, 7)]] \<and>
   pad_clusters two_records_dataset (- 1) [[(4, 5), (7, 7)]] =
     [[(4, 5), (7, 7), (- 1, - 1)], [(- 1, - 1), (- 1, - 1), (- 1, - 1)]] \<and>
   int (length (pad_clusters two_records_dataset (- 1) [[(4, 5), (7, 7)]])) = 2 \<and>
   map length (pad_clusters two_records_dataset (- 1) [[(4, 5), (7, 7)]]) = [3, 3]"
  using pad_clusters_shape [OF two_records_dataset_init, of "[[(4, 5), (7, 7)]]" "- 1"]
    two_records_dataset_init
  by (simp add: two_records_dataset_def pad_clusters_def pad_clusters_inside_def
      pad_clusters_outside_def eval_nat_numeral)

section \<open>Clusters beyond the maxima\<close>

text \<open>
  Claim C5, amended. \<open>pad_clusters\<close> never truncates: when \<open>max_num_clusters\<close> is smaller
  than the number of clusters, the result has as many clusters as the input, and a cluster
  with more than \<open>max_cluster_size\<close> mentions is returned as it is.
\<close>

theorem pad_clusters_oversized:
  "(max_num_clusters self < int (length cls) \<longrightarrow>
      length (pad_clusters self null_id cls) = length cls) \<and>
   (\<forall>i<length cls. max_cluster_size self < int (length (cls ! i)) \<longrightarrow>
      pad_clusters self null_id cls ! i = cls ! i)"
  by (simp add: pad_clusters_def pad_clusters_inside_def pad_clusters_outside_def nth_append)

theorem pad_clusters_oversized_witness:
  "max_num_clusters two_records_dataset < int (length [[(1, 1), (2, 2), (3, 3), (4, 4)], [(5, 5)], [(6, 6)]]) \<and>
   length (pad_clusters two_records_dataset (- 1)
     [[(1, 1), (2, 2), (3, 3), (4, 4)], [(5, 5)], [(6, 6)]]) = 3 \<and>
   (0::nat) < length [[(1, 1), (2, 2), (3, 3), (4, 4)], [(5, 5)], [(6, 6)]] \<and>
   max_cluster_size two_records_dataset
     < int (length ([[(1, 1), (2, 2), (3, 3), (4, 4)], [(5, 5)], [(6, 6)]] ! 0)) \<and>
   pad_clusters two_records_dataset (- 1)
     [[(1, 1), (2, 2), (3, 3), (4, 4)], [(5, 5)], [(6, 6)]] ! 0 = [(1, 1), (2, 2), (3, 3), (4, 4)]"
  using pad_clusters_oversized
    [of two_records_dataset "[[(1, 1), (2, 2), (3, 3), (4, 4)], [(5, 5)], [(6, 6)]]" "- 1"]
  by (simp add: two_records_dataset_def)

text \<open>
  The claim as worded fails: with \<open>max_cluster_size = 3\<close> and \<open>max_num_clusters = 2\<close>, a
  list of three clusters whose first has four mentions comes back with three clusters, the
  first still of four mentions.
\<close>

theorem pad_clusters_truncates_counterexample:
  "CorefDataset_init two_records word_tok (- 1) = Inr two_records_dataset \<and>
   max_cluster_size two_records_dataset = 3 \<and>
   max_num_clusters two_records_dataset = 2 \<and>
   pad_clusters two_records_dataset (- 1)
     [[(1, 1), (2, 2), (3, 3), (4, 4)], [(5, 5)], [(6, 6)]] =
     [[(1, 1), (2, 2), (3, 3), (4, 4)], [(5, 5), (- 1, - 1), (- 1, - 1)],
      [(6, 6), (- 1, - 1), (- 1, - 1)]] \<and>
   length (pad_clusters two_records_dataset (- 1)
     [[(1, 1), (2, 2), (3, 3), (4, 4)], [(5, 5)], [(6, 6)]]) = 3 \<and>
   length (pad_clusters two_records_dataset (- 1)
     [[(1, 1), (2, 2), (3, 3), (4, 4)], [(5, 5)], [(6, 6)]] ! 0) = 4"
  using two_records_dataset_init
  by (simp add: two_records_dataset_def pad_clusters_def pad_clusters_inside_def
      pad_clusters_outside_def eval_nat_numeral)

section \<open>The pure model is the stateful one under a deterministic tokenizer\<close>

lemma scan_word_st_pure:
  assumes "deterministic_tokenizer tk"
  shows "fst (scan_word_st tk idx w (st, s)) = scan_word (\<lambda>w. fst (tk s0 w)) idx w st"
proof -
  obtain tokenized s' where call: "tk s w = (tokenized, s')"
    by (cases "tk s w") auto
  from assms have "fst (tk s w) = fst (tk s0 w)"
    unfolding deterministic_tokenizer_def by blast
  with call have "fst (tk s0 w) = tokenized" by simp
  with call show ?thesis
    by (simp add: scan_word_st_def scan_word_def Let_def)
qed

lemma scan_words_st_pure:
  "deterministic_tokenizer tk \<Longrightarrow>
   fst (scan_words_st tk ws idx (st, s)) = scan_words (\<lambda>w. fst (tk s0 w)) ws idx st"
proof (induction ws arbitrary: idx st s)
  case Nil
  then show ?case by simp
next
  case (Cons w ws)
  obtain st' s' where step: "scan_word_st tk idx w (st, s) = (st', s')"
    by (cases "scan_word_st tk idx w (st, s)") auto
  with scan_word_st_pure [OF Cons.prems, of idx w st s s0]
  have "st' = scan_word (\<lambda>w. fst (tk s0 w)) idx w st" by simp
  with Cons.IH [OF Cons.prems, of "idx + 1" st' s'] step show ?case by simp
qed

lemma align_words_st_pure:
  "deterministic_tokenizer tk \<Longrightarrow>
   fst (align_words_st tk ws s) = align_words (\<lambda>w. fst (tk s0 w)) ws"
  by (simp add: align_words_st_def align_words_def scan_words_st_pure)

lemma tokenize_loop_st_pure:
  "deterministic_tokenizer tk \<Longrightarrow>
   fst (tokenize_loop_st tk msl docs acc s) = tokenize_loop (\<lambda>w. fst (tk s0 w)) msl docs acc"
proof (induction docs arbitrary: acc s)
  case Nil
  then show ?case by simp
next
  case (Cons d docs)
  obtain doc_key ws cls where d: "d = (doc_key, ws, cls)" by (cases d) auto
  obtain ces lens nf where acc: "acc = (ces, lens, nf)" by (cases acc) auto
  obtain st s' where al: "align_words_st tk ws s = (st, s')"
    by (cases "align_words_st tk ws s") auto
  with align_words_st_pure [OF Cons.prems, of ws s s0]
  have st: "align_words (\<lambda>w. fst (tk s0 w)) ws = st" by simp
  show ?case
    unfolding d acc
    by (simp add: al st Let_def Cons.IH [OF Cons.prems] split: sum.splits)
qed

lemma CorefDataset_init_st_pure:
  "deterministic_tokenizer tk \<Longrightarrow>
   fst (CorefDataset_init_st records tk s msl) = CorefDataset_init records (\<lambda>w. fst (tk s0 w)) msl"
proof -
  assume det: "deterministic_tokenizer tk"
  obtain exs mmn mcs mnc where p: "parse_jsonlines records = (exs, mmn, mcs, mnc)"
    by (cases "parse_jsonlines records") auto
  obtain r s' where t: "tokenize_st tk msl exs s = (r, s')"
    by (cases "tokenize_st tk msl exs s") auto
  with tokenize_loop_st_pure [OF det, of msl exs "([], [], 0)" s s0]
  have r: "tokenize (\<lambda>w. fst (tk s0 w)) msl exs = r"
    by (simp add: tokenize_st_def tokenize_def)
  show ?thesis
    by (simp add: CorefDataset_init_st_def CorefDataset_init_def p t r split: sum.splits prod.splits)
qed

section \<open>Determinism\<close>

text \<open>
  Claim C9. For a fixed corpus and a deterministic tokenizer, two runs of the parser and
  the aligner, started with the tokenizer object in any two states, produce the same
  outcome: the same dataset (tokenized examples, lengths, filtered count and the three
  corpus maxima) or the same error.
\<close>

theorem two_runs_agree:
  "deterministic_tokenizer tk \<Longrightarrow>
   fst (CorefDataset_init_st records tk s1 msl) = fst (CorefDataset_init_st records tk s2 msl)"
  by (simp add: CorefDataset_init_st_pure [where ?s0.0 = s1])

lemma counting_tok_init:
  "CorefDataset_init_st two_records counting_tok n (- 1) = (Inr two_records_dataset, n + 4)"
  by (simp add: CorefDataset_init_st_def two_records_def two_records_dataset_def
      parse_jsonlines_def flatten_list_of_lists_def largest_cluster_def tokenize_st_def
      align_words_st_def scan_init_def scan_word_st_def remap_mention_def counting_tok_def)

theorem two_runs_agree_witness:
  "deterministic_tokenizer counting_tok \<and>
   CorefDataset_init_st two_records counting_tok 0 (- 1) = (Inr two_records_dataset, 4) \<and>
   CorefDataset_init_st two_records counting_tok 7 (- 1) = (Inr two_records_dataset, 11) \<and>
   fst (CorefDataset_init_st two_records counting_tok 0 (- 1)) =
     fst (CorefDataset_init_st two_records counting_tok 7 (- 1))"
proof -
  have det: "deterministic_tokenizer counting_tok"
    by (simp add: deterministic_tokenizer_def counting_tok_def)
  from two_runs_agree [OF det, of two_records 0 "- 1" 7] det
    counting_tok_init [of 0] counting_tok_init [of 7]
  show ?thesis by simp
qed

text \<open>
  The hypothesis on the tokenizer is needed: with a tokenizer whose subtokens depend on its
  state, two runs on the same corpus differ.
\<close>

lemma drifting_tok_runs_differ:
  "\<not> deterministic_tokenizer drifting_tok \<and>
   fst (CorefDataset_init_st two_records drifting_tok 0 (- 1)) \<noteq>
     fst (CorefDataset_init_st two_records drifting_tok 1 (- 1))"
proof -
  have "fst (drifting_tok 0 ''a'') \<noteq> fst (drifting_tok 1 ''a'')"
    by (simp add: drifting_tok_def)
  then have 1: "\<not> deterministic_tokenizer drifting_tok"
    unfolding deterministic_tokenizer_def by blast
  have 2: "fst (CorefDataset_init_st two_records drifting_tok 0 (- 1)) \<noteq>
     fst (CorefDataset_init_st two_records drifting_tok 1 (- 1))"
    by (simp add: CorefDataset_init_st_def two_records_def
      parse_jsonlines_def flatten_list_of_lists_def largest_cluster_def tokenize_st_def
      align_words_st_def scan_init_def scan_word_st_def remap_mention_def drifting_tok_def
      eval_nat_numeral)
  from 1 2 show ?thesis by simp
qed

end
